theory Spec2Isabelle
  imports Main "HOL-Library.Sublist"
begin

section \<open>The service worker \<open>sw.js\<close>: data model\<close>

text \<open>
  The model follows the second, full version of the worker in \<open>src/sw.js\<close> (the one with
  four cache names). A request identity is the URL of a GET request; a stored response is
  a snapshot of status, headers and body.
\<close>

type_synonym url = string

record response =
  status :: nat
  headers :: "(string \<times> string) list"
  body :: string

record request =
  request_method :: string
  url :: url
  hostname :: string
  origin :: string
  destination :: string

datatype error = Error string | TypeError string | DOMException string

text \<open>
  One \<open>Cache\<close> object: its entries in insertion order (the order \<open>cache.keys()\<close> reports).
  The \<open>CacheStorage\<close> object \<open>caches\<close>: the named caches in creation order (the order
  \<open>caches.keys()\<close> reports and \<open>caches.match\<close> searches).
\<close>

type_synonym partition = "(url \<times> response) list"
type_synonym cache_storage = "(string \<times> partition) list"

definition CACHE_NAME :: string where
  "CACHE_NAME = ''EduPath-pwa-v1''"

definition DYNAMIC_CACHE :: string where
  "DYNAMIC_CACHE = ''EduPath-dynamic-v1''"

definition IMAGE_CACHE :: string where
  "IMAGE_CACHE = ''EduPath-images-v1''"

definition CDN_CACHE :: string where
  "CDN_CACHE = ''EduPath-cdn-v1''"

definition MAX_DYNAMIC_ITEMS :: nat where
  "MAX_DYNAMIC_ITEMS = 50"

definition MAX_IMAGE_ITEMS :: nat where
  "MAX_IMAGE_ITEMS = 100"

subsection \<open>The cache store the worker calls into\<close>

text \<open>
  \<open>caches.open(name)\<close> can reject (the storage behind the name is unavailable); whether
  it does is a property of the environment, the predicate \<open>openable\<close> that the
  operations below take. When it resolves, the named cache exists afterwards, created
  empty when it did not exist yet.
\<close>

definition caches_open :: "string \<Rightarrow> cache_storage \<Rightarrow> cache_storage" where
  "caches_open name cs = (if name \<in> set (map fst cs) then cs else cs @ [(name, [])])"

text \<open>The entries of a named cache (none when the cache does not exist).\<close>

definition entries :: "string \<Rightarrow> cache_storage \<Rightarrow> partition" where
  "entries name cs = (case map_of cs name of None \<Rightarrow> [] | Some p \<Rightarrow> p)"

definition update_partition ::
  "string \<Rightarrow> (partition \<Rightarrow> partition) \<Rightarrow> cache_storage \<Rightarrow> cache_storage" where
  "update_partition name f cs = map (\<lambda>(n, p). if n = name then (n, f p) else (n, p)) cs"

text \<open>\<open>cache.keys()\<close>: the request identities in insertion order.\<close>

definition cache_keys :: "string \<Rightarrow> cache_storage \<Rightarrow> url list" where
  "cache_keys name cs = map fst (entries name cs)"

text \<open>
  Writing an entry: an entry for the same identity is removed, the new one is appended.
  \<open>cache.delete(request)\<close> removes the entry of that identity.
\<close>

definition partition_put :: "url \<Rightarrow> response \<Rightarrow> partition \<Rightarrow> partition" where
  "partition_put k v p = filter (\<lambda>e. fst e \<noteq> k) p @ [(k, v)]"

definition partition_delete :: "url \<Rightarrow> partition \<Rightarrow> partition" where
  "partition_delete k p = filter (\<lambda>e. fst e \<noteq> k) p"

definition store_entry :: "string \<Rightarrow> url \<Rightarrow> response \<Rightarrow> cache_storage \<Rightarrow> cache_storage" where
  "store_entry name k v cs = update_partition name (partition_put k v) cs"

text \<open>
  \<open>cache.put(request, response)\<close> rejects with a \<open>TypeError\<close>, and writes nothing, when
  the response has status 206 or a \<open>Vary\<close> header that names \<open>*\<close>.
\<close>

definition vary_star :: "response \<Rightarrow> bool" where
  "vary_star r =
     list_ex (\<lambda>(n, v). (n = ''Vary'' \<or> n = ''vary'') \<and> sublist ''*'' v) (headers r)"

definition put_refused :: "response \<Rightarrow> bool" where
  "put_refused r = (status r = 206 \<or> vary_star r)"

definition cache_put ::
  "string \<Rightarrow> url \<Rightarrow> response \<Rightarrow> cache_storage \<Rightarrow> error + cache_storage" where
  "cache_put name k v cs =
     (if put_refused v then Inl (TypeError ''Cache.put: response cannot be stored'')
      else Inr (store_entry name k v cs))"

text \<open>
  The worker never awaits \<open>cache.put\<close> and attaches no handler to its promise: when the
  write is carried out, a rejection reaches nobody and the storage stays as it is.
\<close>

definition put_lands :: "string \<Rightarrow> url \<Rightarrow> response \<Rightarrow> cache_storage \<Rightarrow> cache_storage" where
  "put_lands name k v cs = (case cache_put name k v cs of Inl err \<Rightarrow> cs | Inr cs' \<Rightarrow> cs')"

definition cache_delete :: "string \<Rightarrow> url \<Rightarrow> cache_storage \<Rightarrow> cache_storage" where
  "cache_delete name k cs = update_partition name (partition_delete k) cs"

text \<open>\<open>caches.delete(name)\<close> and \<open>caches.keys()\<close>.\<close>

definition caches_delete :: "string \<Rightarrow> cache_storage \<Rightarrow> cache_storage" where
  "caches_delete name cs = filter (\<lambda>e. fst e \<noteq> name) cs"

definition caches_keys :: "cache_storage \<Rightarrow> string list" where
  "caches_keys cs = map fst cs"

text \<open>
  \<open>caches.match(request)\<close>: the caches are searched in creation order, the first entry
  for the identity is the answer, \<open>None\<close> stands for \<open>undefined\<close>.
\<close>

fun caches_match :: "cache_storage \<Rightarrow> url \<Rightarrow> response option" where
  "caches_match [] k = None"
| "caches_match ((n, p) # cs) k =
     (case map_of p k of Some r \<Rightarrow> Some r | None \<Rightarrow> caches_match cs k)"

subsection \<open>A write in flight\<close>

text \<open>
  Both bounded strategies call \<open>cache.put\<close>, drop its promise and go on to await
  \<open>limitCacheSize\<close>; the write is carried out at some later moment, which the source
  does not fix. A write in flight is described by the number of awaited cache operations
  of the caller (\<open>caches.open\<close>, \<open>cache.keys\<close>, \<open>cache.delete\<close>) that complete before it
  is carried out, and by the entry. \<open>land_due\<close> stands before each awaited operation;
  \<open>land_finally\<close> carries out a write that is still in flight when the caller is done.
\<close>

type_synonym write_in_flight = "(nat \<times> url \<times> response) option"

fun land_due ::
  "string \<Rightarrow> write_in_flight \<times> cache_storage \<Rightarrow> write_in_flight \<times> cache_storage" where
  "land_due name (None, cs) = (None, cs)"
| "land_due name (Some (0, k, v), cs) = (None, put_lands name k v cs)"
| "land_due name (Some (Suc n, k, v), cs) = (Some (n, k, v), cs)"

fun land_finally :: "string \<Rightarrow> write_in_flight \<times> cache_storage \<Rightarrow> cache_storage" where
  "land_finally name (None, cs) = cs"
| "land_finally name (Some (n, k, v), cs) = put_lands name k v cs"

subsection \<open>\<open>limitCacheSize\<close>\<close>

text \<open>
  The function re-opens the cache and re-reads its keys on every call, deletes the first
  key while there are more than \<open>maxItems\<close>, and calls itself again. Its callers have
  opened the same cache before, so its own \<open>caches.open\<close> resolves. With no write in
  flight (\<open>None\<close>) it is the function of the source run on its own.
\<close>

function limitCacheSize ::
  "string \<Rightarrow> nat \<Rightarrow> write_in_flight \<times> cache_storage \<Rightarrow> write_in_flight \<times> cache_storage" where
  "limitCacheSize cacheName maxItems s =
     (let (flight1, cs1) = land_due cacheName s;
          cache = caches_open cacheName cs1;
          (flight2, cs2) = land_due cacheName (flight1, cache);
          keys = cache_keys cacheName cs2
      in if length keys > maxItems
         then (let (flight3, cs3) = land_due cacheName (flight2, cs2)
               in limitCacheSize cacheName maxItems
                    (flight3, cache_delete cacheName (keys ! 0) cs3))
         else (flight2, cs2))"
  by pat_completeness auto

subsection \<open>Promises, the network and the worker's state\<close>

text \<open>
  A promise is described by how it settles: never, or at a time (in milliseconds after
  the handler started), fulfilled with a value or rejected with an error.
\<close>

datatype 'a promise = Pending | Fulfilled nat 'a | Rejected nat error

text \<open>What an \<open>async\<close> function or an awaited chain does for its caller.\<close>

datatype 'a outcome = Returns 'a | Throws error | Hangs

text \<open>\<open>fetch\<close>: the network answers each request identity with a promise.\<close>

type_synonym network = "url \<Rightarrow> response promise"

record world =
  caches :: cache_storage
  fetch_log :: "url list"
  skipped_waiting :: bool
  clients_claimed :: bool

fun settle_time :: "'a promise \<Rightarrow> nat option" where
  "settle_time Pending = None"
| "settle_time (Fulfilled t v) = Some t"
| "settle_time (Rejected t e) = Some t"

text \<open>
  \<open>Promise.race\<close>: the result settles as the input that settles first; of two inputs
  settling together the earlier one in the array wins.
\<close>

fun race2 :: "'a promise \<Rightarrow> 'a promise \<Rightarrow> 'a promise" where
  "race2 p q =
     (case settle_time p of
        None \<Rightarrow> q
      | Some t \<Rightarrow> (case settle_time q of None \<Rightarrow> p | Some u \<Rightarrow> if t \<le> u then p else q))"

fun Promise_race :: "'a promise list \<Rightarrow> 'a promise" where
  "Promise_race [] = Pending"
| "Promise_race (p # ps) = race2 p (Promise_race ps)"

text \<open>
  \<open>Promise.all\<close> over promises that are already described by their outcome: it rejects
  when an input rejects, hangs when none rejects and one never settles.
\<close>

fun Promise_all :: "'a outcome list \<Rightarrow> 'a list outcome" where
  "Promise_all [] = Returns []"
| "Promise_all (Throws e # rs) = Throws e"
| "Promise_all (Returns v # rs) =
     (case Promise_all rs of Returns vs \<Rightarrow> Returns (v # vs) | Throws e \<Rightarrow> Throws e | Hangs \<Rightarrow> Hangs)"
| "Promise_all (Hangs # rs) =
     (case Promise_all rs of Throws e \<Rightarrow> Throws e | _ \<Rightarrow> Hangs)"

subsection \<open>Constants of the worker\<close>

text \<open>
  The array literal \<open>urlsToCache\<close> of \<open>sw.js\<close> has no comma after its fifth entry and
  is not a list as written; the install listener therefore takes the manifest as an
  argument and is verified for every manifest.
\<close>

definition cdnUrlsToCache :: "url list" where
  "cdnUrlsToCache =
     [''https://cdn.jsdelivr.net/npm/@tailwindcss/browser@4'',
      ''https://fonts.googleapis.com/css2?family=Inter:wght@300;400;500;600;700;800&family=Poppins:wght@300;400;500;600;700&display=swap'',
      ''https://fonts.googleapis.com/css2?family=Syne:wght@400;500;600;700;800&display=swap'',
      ''https://fonts.googleapis.com/css2?family=Space+Grotesk:wght@300;400;500;600;700&display=swap'']"

definition cacheWhitelist :: "string list" where
  "cacheWhitelist = [CACHE_NAME, DYNAMIC_CACHE, IMAGE_CACHE, CDN_CACHE]"

definition cdnDomains :: "string list" where
  "cdnDomains =
     [''cdn.tailwindcss.com'', ''fonts.googleapis.com'', ''fonts.gstatic.com'',
      ''cdnjs.cloudflare.com'', ''unpkg.com'', ''cdn.jsdelivr.net'']"

subsection \<open>Installation\<close>

definition response_ok :: "response \<Rightarrow> bool" where
  "response_ok r = (200 \<le> status r \<and> status r \<le> 299)"

text \<open>
  \<open>cache.addAll(urls)\<close> fetches every URL and stores all the responses, or none: it
  rejects when a fetch rejects, answers with a status outside 200..299, or answers with
  a response that \<open>cache.put\<close> refuses.
\<close>

fun addAll_refused :: "response promise \<Rightarrow> bool" where
  "addAll_refused Pending = False"
| "addAll_refused (Fulfilled t r) = (\<not> response_ok r \<or> put_refused r)"
| "addAll_refused (Rejected t e) = True"

fun fetched :: "(url \<times> response promise) list \<Rightarrow> (url \<times> response) list" where
  "fetched [] = []"
| "fetched ((u, Fulfilled t r) # ps) = (u, r) # fetched ps"
| "fetched ((u, _) # ps) = fetched ps"

definition cache_addAll :: "network \<Rightarrow> string \<Rightarrow> url list \<Rightarrow> world \<Rightarrow> unit outcome \<times> world" where
  "cache_addAll net name urls w =
     (let w1 = w\<lparr>fetch_log := fetch_log w @ urls\<rparr>;
          answers = map net urls
      in if list_ex addAll_refused answers
           then (Throws (TypeError ''Request failed''), w1)
         else if list_ex (\<lambda>p. p = Pending) answers
           then (Hangs, w1)
         else (Returns (),
               w1\<lparr>caches := fold (\<lambda>(u, r). store_entry name u r) (fetched (zip urls answers))
                                (caches w1)\<rparr>))"

text \<open>The chain \<open>caches.open(name).then((cache) => cache.addAll(urls))\<close>.\<close>

definition open_then_addAll ::
  "(string \<Rightarrow> bool) \<Rightarrow> network \<Rightarrow> string \<Rightarrow> url list \<Rightarrow> world \<Rightarrow> unit outcome \<times> world" where
  "open_then_addAll openable net name urls w =
     (if openable name
      then cache_addAll net name urls (w\<lparr>caches := caches_open name (caches w)\<rparr>)
      else (Throws (DOMException ''caches.open''), w))"

text \<open>\<open>promise.catch(handler)\<close> with a handler that returns normally.\<close>

fun catch_all :: "unit outcome \<Rightarrow> unit outcome" where
  "catch_all (Throws e) = Returns ()"
| "catch_all r = r"

text \<open>
  In the second chain the \<open>catch\<close> is attached to \<open>cache.addAll\<close> inside the \<open>then\<close>
  callback: a rejection of \<open>caches.open(CDN_CACHE)\<close> itself is not caught.
\<close>

definition install ::
  "(string \<Rightarrow> bool) \<Rightarrow> network \<Rightarrow> url list \<Rightarrow> world \<Rightarrow> unit outcome \<times> world" where
  "install openable net urlsToCache w =
     (let (static, w2) = open_then_addAll openable net CACHE_NAME urlsToCache w;
          (cdn, w4) =
            (if openable CDN_CACHE
             then (case cache_addAll net CDN_CACHE cdnUrlsToCache
                          (w2\<lparr>caches := caches_open CDN_CACHE (caches w2)\<rparr>) of
                     (r, w3) \<Rightarrow> (catch_all r, w3))
             else (Throws (DOMException ''caches.open''), w2))
      in case Promise_all [static, cdn] of
           Returns vs \<Rightarrow> (Returns (), w4\<lparr>skipped_waiting := True\<rparr>)
         | Throws e \<Rightarrow> (Throws e, w4)
         | Hangs \<Rightarrow> (Hangs, w4))"

subsection \<open>Activation\<close>

text \<open>The callback mapped over \<open>keyList\<close>.\<close>

definition activate_key :: "string \<Rightarrow> cache_storage \<Rightarrow> cache_storage" where
  "activate_key key cs = (if key \<notin> set cacheWhitelist then caches_delete key cs else cs)"

definition activate :: "world \<Rightarrow> unit outcome \<times> world" where
  "activate w =
     (let keyList = caches_keys (caches w)
      in (Returns (), w\<lparr>caches := fold activate_key keyList (caches w), clients_claimed := True\<rparr>))"

subsection \<open>The strategies\<close>

text \<open>
  Each strategy takes the environment (which caches can be opened, what the network
  answers, when a dropped write is carried out), the request and the state, and gives
  what it returns together with the state it leaves once its dropped write, if any, has
  been carried out. \<open>fetch_log\<close> records every call of \<open>fetch\<close>. A rejection of an
  awaited call inside \<open>try\<close> continues in the \<open>catch\<close> block.
\<close>

text \<open>\<open>s.includes(sub)\<close> on strings.\<close>

definition str_includes :: "string \<Rightarrow> string \<Rightarrow> bool" where
  "str_includes s sub = sublist sub s"

definition isCDNResource :: "string \<Rightarrow> bool" where
  "isCDNResource host = list_ex (\<lambda>domain. str_includes host domain) cdnDomains"

text \<open>The \<open>catch\<close> block of \<open>handleCDNRequest\<close>.\<close>

definition handleCDNRequest_catch ::
  "error \<Rightarrow> request \<Rightarrow> world \<Rightarrow> response option outcome \<times> world" where
  "handleCDNRequest_catch err request w =
     (case caches_match (caches w) (url request) of
        Some cachedResponse \<Rightarrow> (Returns (Some cachedResponse), w)
      | None \<Rightarrow>
          if str_includes (url request) ''.css'' \<or> str_includes (url request) ''tailwind''
          then (Returns (Some \<lparr>status = 200,
                                headers = [(''Content-Type'', ''text/css'')],
                                body = ''/* Offline - CSS unavailable */''\<rparr>), w)
          else (Throws err, w))"

definition handleCDNRequest ::
  "(string \<Rightarrow> bool) \<Rightarrow> network \<Rightarrow> request \<Rightarrow> world \<Rightarrow> response option outcome \<times> world" where
  "handleCDNRequest openable net request w =
     (case caches_match (caches w) (url request) of
        Some cachedResponse \<Rightarrow> (Returns (Some cachedResponse), w)
      | None \<Rightarrow>
          (let w1 = w\<lparr>fetch_log := fetch_log w @ [url request]\<rparr>
           in case net (url request) of
                Fulfilled t networkResponse \<Rightarrow>
                  (if status networkResponse = 200
                   then (if openable CDN_CACHE
                         then (Returns (Some networkResponse),
                               w1\<lparr>caches := put_lands CDN_CACHE (url request) networkResponse
                                                (caches_open CDN_CACHE (caches w1))\<rparr>)
                         else handleCDNRequest_catch (DOMException ''caches.open'') request w1)
                   else (Returns (Some networkResponse), w1))
              | Rejected t err \<Rightarrow> handleCDNRequest_catch err request w1
              | Pending \<Rightarrow> (Hangs, w1)))"

text \<open>The \<open>catch\<close> block of \<open>handlePageRequest\<close>.\<close>

definition handlePageRequest_catch :: "request \<Rightarrow> world \<Rightarrow> response option outcome \<times> world" where
  "handlePageRequest_catch request w =
     (case caches_match (caches w) (url request) of
        Some cachedResponse \<Rightarrow> (Returns (Some cachedResponse), w)
      | None \<Rightarrow> (Returns (caches_match (caches w) ''/offline.html''), w))"

definition handlePageRequest ::
  "(string \<Rightarrow> bool) \<Rightarrow> network \<Rightarrow> nat \<Rightarrow> request \<Rightarrow> world
     \<Rightarrow> response option outcome \<times> world" where
  "handlePageRequest openable net lands request w =
     (let w1 = w\<lparr>fetch_log := fetch_log w @ [url request]\<rparr>
      in case net (url request) of
           Fulfilled t networkResponse \<Rightarrow>
             (if openable DYNAMIC_CACHE
              then (let cache = caches_open DYNAMIC_CACHE (caches w1);
                        put = Some (lands, url request, networkResponse);
                        limited = limitCacheSize DYNAMIC_CACHE MAX_DYNAMIC_ITEMS (put, cache)
                    in (Returns (Some networkResponse),
                        w1\<lparr>caches := land_finally DYNAMIC_CACHE limited\<rparr>))
              else handlePageRequest_catch request w1)
         | Rejected t err \<Rightarrow> handlePageRequest_catch request w1
         | Pending \<Rightarrow> (Hangs, w1))"

definition handleImageRequest ::
  "(string \<Rightarrow> bool) \<Rightarrow> network \<Rightarrow> nat \<Rightarrow> request \<Rightarrow> world
     \<Rightarrow> response option outcome \<times> world" where
  "handleImageRequest openable net lands request w =
     (case caches_match (caches w) (url request) of
        Some cachedResponse \<Rightarrow> (Returns (Some cachedResponse), w)
      | None \<Rightarrow>
          (let w1 = w\<lparr>fetch_log := fetch_log w @ [url request]\<rparr>;
               caught = (Returns (Some \<lparr>status = 404,
                                         headers = [(''Content-Type'', ''text/plain;charset=UTF-8'')],
                                         body = ''Image not available''\<rparr>), w1)
           in case net (url request) of
                Fulfilled t networkResponse \<Rightarrow>
                  (if openable IMAGE_CACHE
                   then (let cache = caches_open IMAGE_CACHE (caches w1);
                             put = Some (lands, url request, networkResponse);
                             limited = limitCacheSize IMAGE_CACHE MAX_IMAGE_ITEMS (put, cache)
                         in (Returns (Some networkResponse),
                             w1\<lparr>caches := land_finally IMAGE_CACHE limited\<rparr>))
                   else caught)
              | Rejected t err \<Rightarrow> caught
              | Pending \<Rightarrow> (Hangs, w1)))"

text \<open>
  \<open>JSON.stringify\<close> of a flat object whose values are strings without characters to
  escape, or booleans.
\<close>

datatype json_value = JsonString string | JsonBool bool

fun stringify_value :: "json_value \<Rightarrow> string" where
  "stringify_value (JsonString s) = [CHR 0x22] @ s @ [CHR 0x22]"
| "stringify_value (JsonBool b) = (if b then ''true'' else ''false'')"

fun stringify_members :: "(string \<times> json_value) list \<Rightarrow> string" where
  "stringify_members [] = []"
| "stringify_members [(k, v)] = [CHR 0x22] @ k @ [CHR 0x22] @ '':'' @ stringify_value v"
| "stringify_members ((k, v) # ms) =
     [CHR 0x22] @ k @ [CHR 0x22] @ '':'' @ stringify_value v @ '','' @ stringify_members ms"

definition JSON_stringify :: "(string \<times> json_value) list \<Rightarrow> string" where
  "JSON_stringify ms = ''{'' @ stringify_members ms @ ''}''"

definition handleApiRequest :: "network \<Rightarrow> request \<Rightarrow> world \<Rightarrow> response option outcome \<times> world" where
  "handleApiRequest net request w =
     (let timeoutPromise = Rejected 5000 (Error ''Request timeout'');
          w1 = w\<lparr>fetch_log := fetch_log w @ [url request]\<rparr>
      in case Promise_race [net (url request), timeoutPromise] of
           Fulfilled t networkResponse \<Rightarrow> (Returns (Some networkResponse), w1)
         | Rejected t err \<Rightarrow>
             (Returns (Some \<lparr>status = 503,
                              headers = [(''Content-Type'', ''application/json'')],
                              body = JSON_stringify [(''error'', JsonString ''Network error''),
                                                     (''offline'', JsonBool True)]\<rparr>), w1)
         | Pending \<Rightarrow> (Hangs, w1))"

subsection \<open>The fetch listener\<close>

text \<open>
  The listener either returns without answering (the browser then handles the request
  itself) or answers through \<open>event.respondWith\<close>. \<open>hostname\<close> and \<open>origin\<close> of a request
  are those of \<open>new URL(request.url)\<close>; \<open>location_origin\<close> is the worker's own origin.
\<close>

datatype fetch_event = NotIntercepted | RespondWith "response option outcome"

fun plain_fetch :: "network \<Rightarrow> request \<Rightarrow> world \<Rightarrow> response option outcome \<times> world" where
  "plain_fetch net request w =
     (case net (url request) of
        Fulfilled t r \<Rightarrow> Returns (Some r)
      | Rejected t err \<Rightarrow> Throws err
      | Pending \<Rightarrow> Hangs,
      w\<lparr>fetch_log := fetch_log w @ [url request]\<rparr>)"

fun respondWith :: "response option outcome \<times> world \<Rightarrow> fetch_event \<times> world" where
  "respondWith (r, w) = (RespondWith r, w)"

definition fetch_listener ::
  "string \<Rightarrow> (string \<Rightarrow> bool) \<Rightarrow> network \<Rightarrow> nat \<Rightarrow> request \<Rightarrow> world
     \<Rightarrow> fetch_event \<times> world" where
  "fetch_listener location_origin openable net lands request w =
     (if request_method request \<noteq> ''GET'' then (NotIntercepted, w)
      else if isCDNResource (hostname request)
        then respondWith (handleCDNRequest openable net request w)
      else if origin request \<noteq> location_origin then respondWith (plain_fetch net request w)
      else if destination request = ''image''
        then respondWith (handleImageRequest openable net lands request w)
      else if str_includes (url request) ''/api/''
        then respondWith (handleApiRequest net request w)
      else respondWith (handlePageRequest openable net lands request w))"

subsection \<open>The message listener\<close>

text \<open>
  \<open>event.data\<close> is any value a client can post. Reading a property of \<open>null\<close> or
  \<open>undefined\<close> throws a \<open>TypeError\<close>; a primitive has no property \<open>action\<close>.
\<close>

datatype js_value =
    JUndefined
  | JNull
  | JBoolean bool
  | JNumber int
  | JString string
  | JObject "(string \<times> js_value) list"

fun get_action :: "js_value \<Rightarrow> error + js_value" where
  "get_action JUndefined = Inl (TypeError ''Cannot read properties of undefined'')"
| "get_action JNull = Inl (TypeError ''Cannot read properties of null'')"
| "get_action (JObject members) =
     Inr (case map_of members ''action'' of None \<Rightarrow> JUndefined | Some v \<Rightarrow> v)"
| "get_action v = Inr JUndefined"

text \<open>
  The outcome is that of the listener's body together with the promise it hands to
  \<open>event.waitUntil\<close>.
\<close>

definition message_listener ::
  "(string \<Rightarrow> bool) \<Rightarrow> network \<Rightarrow> js_value \<Rightarrow> world \<Rightarrow> unit outcome \<times> world" where
  "message_listener openable net data w =
     (case get_action data of
        Inl err \<Rightarrow> (Throws err, w)
      | Inr action \<Rightarrow>
          if action = JString ''skipWaiting'' then (Returns (), w\<lparr>skipped_waiting := True\<rparr>)
          else if action = JString ''clearCache''
            then (Returns (), w\<lparr>caches := fold caches_delete (caches_keys (caches w)) (caches w)\<rparr>)
          else if action = JString ''cacheCDN''
            then open_then_addAll openable net CDN_CACHE cdnUrlsToCache w
          else (Returns (), w))"

subsection \<open>Auxiliary notions and sample inputs\<close>

text \<open>The \<open>m\<close> most recently inserted entries of an insertion-ordered list.\<close>

definition newest :: "nat \<Rightarrow> 'a list \<Rightarrow> 'a list" where
  "newest m xs = drop (length xs - m) xs"

text \<open>The weight of a state of \<open>limitCacheSize\<close>, which every recursive call lowers.\<close>

fun flight_weight :: "write_in_flight \<Rightarrow> nat" where
  "flight_weight None = 0"
| "flight_weight (Some f) = 2"

definition sample_response :: "string \<Rightarrow> response" where
  "sample_response b = \<lparr>status = 200, headers = [(''Content-Type'', ''text/html'')], body = b\<rparr>"

definition not_found_response :: response where
  "not_found_response =
     \<lparr>status = 404, headers = [(''Content-Type'', ''text/html'')], body = ''Not Found''\<rparr>"


definition sample_request :: "string \<Rightarrow> request" where
  "sample_request path =
     \<lparr>request_method = ''GET'', url = path, hostname = ''edupath.example'',
      origin = ''https://edupath.example'', destination = ''document''\<rparr>"

definition empty_world :: world where
  "empty_world = \<lparr>caches = [], fetch_log = [], skipped_waiting = False, clients_claimed = False\<rparr>"

definition old_world :: world where
  "old_world =
     \<lparr>caches = [(''EduPath-pwa-v0'', [(''/'', sample_response ''old'')]),
                (CACHE_NAME, [(''/offline.html'', sample_response ''offline'')]),
                (''EduPath-dynamic-v0'', []),
                (CDN_CACHE, [])],
      fetch_log = [], skipped_waiting = True, clients_claimed = False\<rparr>"

definition offline_world :: world where
  "offline_world =
     empty_world\<lparr>caches := [(CACHE_NAME, [(''/offline.html'', sample_response ''offline'')]),
                             (DYNAMIC_CACHE, [(''/index.html'', sample_response ''home'')])]\<rparr>"

text \<open>A dynamic cache that holds exactly \<open>MAX_DYNAMIC_ITEMS\<close> pages.\<close>

definition fifty_pages :: partition where
  "fifty_pages =
     map (\<lambda>i. (''/page/'' @ replicate i (CHR ''a''), sample_response ''cached'')) [0..<50]"

definition full_world :: world where
  "full_world = empty_world\<lparr>caches := [(DYNAMIC_CACHE, fifty_pages)]\<rparr>"

text \<open>The manifest of the earlier worker in \<open>src/unnamed/part_000\<close>, as a sample.\<close>

definition local_manifest :: "url list" where
  "local_manifest =
     [''/'', ''/index.html'', ''/manifest.json'', ''/icons/favicon.png'', ''/offline.html'']"

definition serves_only_local :: network where
  "serves_only_local u =
     (if u \<in> set local_manifest then Fulfilled 20 (sample_response ''asset'')
      else Rejected 50 (TypeError ''Failed to fetch''))"

definition serves_everything :: network where
  "serves_everything u = Fulfilled 20 (sample_response ''asset'')"

definition offline_page_missing :: network where
  "offline_page_missing u =
     (if u = ''/offline.html'' then Fulfilled 20 not_found_response
      else Fulfilled 20 (sample_response ''asset''))"

definition cdn_lookalike_request :: request where
  "cdn_lookalike_request =
     \<lparr>request_method = ''GET'', url = ''https://cdn.jsdelivr.net.example.com/lib.js'',
      hostname = ''cdn.jsdelivr.net.example.com'',
      origin = ''https://cdn.jsdelivr.net.example.com'', destination = ''script''\<rparr>"

text \<open>The body the API strategy is said to answer with when the network fails.\<close>

definition network_error_body :: string where
  \<open>network_error_body = ''{"error":"Network error","offline":true}''\<close>

section \<open>Facts about the cache store\<close>

lemma map_of_update_partition:
  "map_of (update_partition name f cs) name = map_option f (map_of cs name)"
  by (induction cs) (auto simp: update_partition_def)

lemma map_of_update_partition_other:
  "n \<noteq> name \<Longrightarrow> map_of (update_partition name f cs) n = map_of cs n"
  by (induction cs) (auto simp: update_partition_def)

lemma names_update_partition: "map fst (update_partition name f cs) = map fst cs"
  by (induction cs) (auto simp: update_partition_def)

lemma name_in_caches_open: "name \<in> set (map fst (caches_open name cs))"
  by (simp add: caches_open_def)

lemma caches_open_present: "name \<in> set (map fst cs) \<Longrightarrow> caches_open name cs = cs"
  by (simp add: caches_open_def)

lemma map_of_absent: "name \<notin> fst ` set cs \<Longrightarrow> map_of cs name = None"
  by (simp add: map_of_eq_None_iff)

lemma entries_caches_open: "entries n (caches_open name cs) = entries n cs"
proof (cases "name \<in> fst ` set cs")
  case True
  then show ?thesis by (simp add: caches_open_def)
next
  case False
  then have "map_of cs name = None" by (rule map_of_absent)
  then show ?thesis
    by (cases "map_of cs n") (auto simp: caches_open_def entries_def map_add_def)
qed

lemma entries_update_partition:
  "name \<in> set (map fst cs) \<Longrightarrow> entries name (update_partition name f cs) = f (entries name cs)"
  by (auto simp: entries_def map_of_update_partition map_of_eq_None_iff split: option.splits)

lemma entries_update_partition_absent:
  "name \<notin> set (map fst cs) \<Longrightarrow> entries name (update_partition name f cs) = []"
  by (simp add: entries_def map_of_update_partition map_of_absent)

lemma entries_update_partition_other:
  "n \<noteq> name \<Longrightarrow> entries n (update_partition name f cs) = entries n cs"
  by (simp add: entries_def map_of_update_partition_other)

lemma entries_absent: "name \<notin> set (map fst cs) \<Longrightarrow> entries name cs = []"
  by (simp add: entries_def map_of_absent)

section \<open>\<open>limitCacheSize\<close> terminates\<close>

lemma length_store_entry:
  "length (entries name (store_entry name k v cs)) \<le> Suc (length (entries name cs))"
proof (cases "name \<in> set (map fst cs)")
  case True
  then show ?thesis
    by (simp add: store_entry_def entries_update_partition partition_put_def le_SucI)
next
  case False
  then show ?thesis by (simp add: store_entry_def entries_update_partition_absent)
qed

lemma keys_store_entry:
  "fst ` set (entries name cs) \<subseteq> fst ` set (entries name (store_entry name k v cs))"
proof (cases "name \<in> set (map fst cs)")
  case True
  then show ?thesis
    by (force simp: store_entry_def entries_update_partition partition_put_def)
next
  case False
  then show ?thesis by (simp add: entries_absent)
qed

lemma length_put_lands:
  "length (entries name (put_lands name k v cs)) \<le> Suc (length (entries name cs))"
  using length_store_entry [of name k v cs] by (simp add: put_lands_def cache_put_def)

lemma keys_put_lands:
  "fst ` set (entries name cs) \<subseteq> fst ` set (entries name (put_lands name k v cs))"
  using keys_store_entry [of name cs k v] by (simp add: put_lands_def cache_put_def)

lemma land_due_weight:
  assumes "land_due name (f, cs) = (f', cs')"
  shows "length (entries name cs') + flight_weight f'
           \<le> length (entries name cs) + flight_weight f"
    and "fst ` set (entries name cs) \<subseteq> fst ` set (entries name cs')"
proof -
  show "length (entries name cs') + flight_weight f'
           \<le> length (entries name cs) + flight_weight f"
  proof (cases f)
    case None
    with assms show ?thesis by simp
  next
    case (Some a)
    obtain n k v where a: "a = (n, k, v)" by (cases a)
    show ?thesis
      using assms Some a length_put_lands [of name k v cs] by (cases n) auto
  qed
  show "fst ` set (entries name cs) \<subseteq> fst ` set (entries name cs')"
  proof (cases f)
    case None
    with assms show ?thesis by simp
  next
    case (Some a)
    obtain n k v where a: "a = (n, k, v)" by (cases a)
    show ?thesis
      using assms Some a keys_put_lands [of name cs k v] by (cases n) auto
  qed
qed

lemma length_cache_delete:
  assumes "key \<in> fst ` set (entries name cs)"
  shows "length (entries name (cache_delete name key cs)) < length (entries name cs)"
proof -
  have present: "name \<in> set (map fst cs)"
    using assms by (cases "name \<in> set (map fst cs)") (auto simp: entries_absent)
  have "length (filter (\<lambda>e. fst e \<noteq> key) (entries name cs)) < length (entries name cs)"
    using assms by (intro length_filter_less [where x = "SOME e. e \<in> set (entries name cs) \<and> fst e = key"])
      (auto intro: someI2_ex)
  then show ?thesis
    by (simp add: cache_delete_def entries_update_partition [OF present] partition_delete_def)
qed

termination limitCacheSize
proof (relation "measure (\<lambda>(name, m, f, cs). length (entries name cs) + flight_weight f)",
    goal_cases)
  case 1
  show ?case by simp
next
  case (2 cacheName maxItems s x flight1 cs1 cache xa flight2 cs2 keys xb flight3 cs3)
  obtain f cs where s: "s = (f, cs)" by (cases s)
  have d1: "land_due cacheName (f, cs) = (flight1, cs1)" using 2 s by simp
  have d2: "land_due cacheName (flight1, caches_open cacheName cs1) = (flight2, cs2)"
    using 2 by simp
  have d3: "land_due cacheName (flight2, cs2) = (flight3, cs3)" using 2 by simp
  have over: "maxItems < length (entries cacheName cs2)"
    using 2 by (simp add: cache_keys_def)
  then have "entries cacheName cs2 \<noteq> []" by auto
  then have "keys ! 0 \<in> fst ` set (entries cacheName cs2)"
    using 2 by (cases "entries cacheName cs2") (auto simp: cache_keys_def)
  then have "keys ! 0 \<in> fst ` set (entries cacheName cs3)"
    using land_due_weight(2) [OF d3] by blast
  then have "length (entries cacheName (cache_delete cacheName (keys ! 0) cs3))
      < length (entries cacheName cs3)"
    by (rule length_cache_delete)
  moreover have "length (entries cacheName cs3) + flight_weight flight3
      \<le> length (entries cacheName cs) + flight_weight f"
    using land_due_weight(1) [OF d1] land_due_weight(1) [OF d2] land_due_weight(1) [OF d3]
    by (simp add: entries_caches_open)
  ultimately show ?case by (simp add: s)
qed

declare limitCacheSize.simps [simp del]

section \<open>\<open>limitCacheSize\<close> and a write in flight\<close>

lemma names_put_lands: "map fst (put_lands name k v cs) = map fst cs"
  by (simp add: put_lands_def cache_put_def store_entry_def names_update_partition)

lemma put_lands_refused: "put_refused v \<Longrightarrow> put_lands name k v cs = cs"
  by (simp add: put_lands_def cache_put_def)

lemma entries_put_lands_open:
  "\<not> put_refused v \<Longrightarrow>
   entries name (put_lands name k v (caches_open name cs)) = partition_put k v (entries name cs)"
  by (simp add: put_lands_def cache_put_def store_entry_def
      entries_update_partition [OF name_in_caches_open] entries_caches_open)

lemma entries_put_lands_other:
  "n \<noteq> name \<Longrightarrow> entries n (put_lands name k v cs) = entries n cs"
  by (simp add: put_lands_def cache_put_def store_entry_def entries_update_partition_other)

lemma limitCacheSize_settled:
  "limitCacheSize name m (None, cs) =
     (let cache = caches_open name cs; keys = cache_keys name cache
      in if length keys > m
         then limitCacheSize name m (None, cache_delete name (keys ! 0) cache)
         else (None, cache))"
  by (subst limitCacheSize.simps) (simp add: Let_def)

lemma limitCacheSize_lands_before_open:
  "limitCacheSize name m (Some (0, k, v), cs) = limitCacheSize name m (None, put_lands name k v cs)"
  by (simp add: limitCacheSize.simps [of name m "(Some (0, k, v), cs)"]
      limitCacheSize_settled [of name m "put_lands name k v cs"] Let_def)

lemma limitCacheSize_lands_before_keys:
  "limitCacheSize name m (Some (Suc 0, k, v), cs)
   = limitCacheSize name m (None, put_lands name k v (caches_open name cs))"
proof -
  have "caches_open name (put_lands name k v (caches_open name cs))
        = put_lands name k v (caches_open name cs)"
    by (rule caches_open_present) (simp only: names_put_lands name_in_caches_open)
  then show ?thesis
    by (simp add: limitCacheSize.simps [of name m "(Some (Suc 0, k, v), cs)"]
        limitCacheSize_settled [of name m "put_lands name k v (caches_open name cs)"] Let_def)
qed

lemma limitCacheSize_lands_after:
  "length (entries name cs) \<le> m \<Longrightarrow>
   limitCacheSize name m (Some (Suc (Suc n), k, v), cs) = (Some (n, k, v), caches_open name cs)"
  by (simp add: limitCacheSize.simps [of name m "(Some (Suc (Suc n), k, v), cs)"]
      cache_keys_def entries_caches_open)

lemma limitCacheSize_settled_within:
  "length (entries name cs) \<le> m \<Longrightarrow> limitCacheSize name m (None, cs) = (None, caches_open name cs)"
  by (simp add: limitCacheSize_settled [of name m cs] cache_keys_def entries_caches_open)

lemma limitCacheSize_settled_over:
  assumes "m < length (entries name cs)"
  shows "limitCacheSize name m (None, cs)
         = limitCacheSize name m
             (None, cache_delete name (fst (hd (entries name cs))) (caches_open name cs))"
proof -
  have "entries name cs \<noteq> []" using assms by auto
  then have "cache_keys name (caches_open name cs) ! 0 = fst (hd (entries name cs))"
    by (simp add: cache_keys_def entries_caches_open hd_conv_nth)
  then show ?thesis
    using assms
    by (simp add: limitCacheSize_settled [of name m cs] cache_keys_def entries_caches_open)
qed

lemma entries_delete_open:
  "entries name (cache_delete name key (caches_open name cs))
   = partition_delete key (entries name cs)"
  by (simp add: cache_delete_def entries_update_partition [OF name_in_caches_open]
      entries_caches_open)

lemma take_filter_take:
  "distinct (map fst R) \<Longrightarrow>
   take n (filter (\<lambda>e. fst e \<noteq> k) (take (Suc n) R)) = take n (filter (\<lambda>e. fst e \<noteq> k) R)"
proof (induction R arbitrary: n)
  case Nil
  then show ?case by simp
next
  case (Cons x R)
  show ?case
  proof (cases "fst x = k")
    case True
    with Cons.prems have "k \<notin> fst ` set R" by auto
    then have all: "\<forall>e \<in> set R. fst e \<noteq> k" by auto
    then have "filter (\<lambda>e. fst e \<noteq> k) R = R" by simp
    moreover have "filter (\<lambda>e. fst e \<noteq> k) (take n R) = take n R"
      using all by (auto simp: filter_id_conv dest: in_set_takeD)
    ultimately show ?thesis using True by simp
  next
    case False
    show ?thesis
    proof (cases n)
      case 0
      then show ?thesis by simp
    next
      case (Suc n')
      with Cons False show ?thesis by simp
    qed
  qed
qed

lemma newest_rev: "newest m xs = rev (take m (rev xs))"
  by (simp add: newest_def rev_take)

lemma newest_put:
  assumes "distinct (map fst U)"
  shows "newest m (partition_put k v (newest m U)) = newest m (partition_put k v U)"
proof (cases m)
  case 0
  then show ?thesis by (simp add: newest_def)
next
  case (Suc n)
  have d: "distinct (map fst (rev U))" using assms by (simp add: rev_map[symmetric] del: rev_map)
  show ?thesis
    using take_filter_take [OF d, of n k]
    by (simp add: newest_rev partition_put_def Suc rev_filter)
qed

lemma distinct_partition_put:
  "distinct (map fst p) \<Longrightarrow> distinct (map fst (partition_put k v p))"
  by (auto simp: partition_put_def distinct_map_filter)

lemma distinct_newest: "distinct (map fst p) \<Longrightarrow> distinct (map fst (newest m p))"
  by (simp add: newest_def drop_map[symmetric] del: drop_map)

lemma length_newest: "length (newest m p) \<le> m"
  by (simp add: newest_def)

lemma newest_within: "length p \<le> m \<Longrightarrow> newest m p = p"
  by (simp add: newest_def)

lemma newest_idem: "newest m (newest m p) = newest m p"
  by (simp add: newest_within length_newest)

lemma limitCacheSize_settled_newest:
  "distinct (map fst (entries name cs)) \<Longrightarrow>
   fst (limitCacheSize name m (None, cs)) = None
   \<and> entries name (snd (limitCacheSize name m (None, cs))) = newest m (entries name cs)"
proof (induction "length (entries name cs)" arbitrary: cs rule: less_induct)
  case less
  let ?p = "entries name cs"
  show ?case
  proof (cases "m < length ?p")
    case False
    then show ?thesis
      by (simp add: limitCacheSize_settled_within entries_caches_open newest_within)
  next
    case True
    then obtain x p' where p: "?p = x # p'" by (cases ?p) auto
    let ?cs' = "cache_delete name (fst (hd ?p)) (caches_open name cs)"
    have "fst x \<notin> fst ` set p'" using less.prems p by auto
    then have "\<forall>e \<in> set p'. fst e \<noteq> fst x" by (metis imageI)
    then have f: "filter (\<lambda>e. fst e \<noteq> fst x) p' = p'" by simp
    have e': "entries name ?cs' = p'"
      by (simp add: entries_delete_open p partition_delete_def f)
    have d': "distinct (map fst (entries name ?cs'))" using less.prems p e' by simp
    have "length (entries name ?cs') < length ?p" using e' p by simp
    from less.hyps [OF this d']
    have "fst (limitCacheSize name m (None, ?cs')) = None
        \<and> entries name (snd (limitCacheSize name m (None, ?cs'))) = newest m p'"
      using e' by simp
    moreover have "newest m (x # p') = newest m p'"
      using True p by (simp add: newest_def Suc_diff_le)
    ultimately show ?thesis
      using limitCacheSize_settled_over [OF True] p by simp
  qed
qed

lemma limitCacheSize_settled_other:
  "n \<noteq> name \<Longrightarrow> entries n (snd (limitCacheSize name m (None, cs))) = entries n cs"
proof (induction "length (entries name cs)" arbitrary: cs rule: less_induct)
  case less
  show ?case
  proof (cases "m < length (entries name cs)")
    case False
    then show ?thesis by (simp add: limitCacheSize_settled_within entries_caches_open)
  next
    case True
    let ?cs' = "cache_delete name (fst (hd (entries name cs))) (caches_open name cs)"
    have "entries name cs \<noteq> []" using True by auto
    then have "fst (hd (entries name cs)) \<in> fst ` set (entries name (caches_open name cs))"
      by (simp add: entries_caches_open)
    from length_cache_delete [OF this]
    have "length (entries name ?cs') < length (entries name cs)"
      by (simp add: entries_caches_open)
    from less.hyps [OF this less.prems]
    show ?thesis
      using limitCacheSize_settled_over [OF True] less.prems
      by (simp add: cache_delete_def entries_update_partition_other entries_caches_open)
  qed
qed


lemma caches_open_twice: "caches_open name (caches_open name cs) = caches_open name cs"
  by (rule caches_open_present) (rule name_in_caches_open)

lemma caches_open_put_lands:
  "caches_open name (put_lands name k v (caches_open name cs))
   = put_lands name k v (caches_open name cs)"
  by (rule caches_open_present) (simp only: names_put_lands name_in_caches_open)

lemma fst_limitCacheSize_settled: "fst (limitCacheSize name m (None, cs)) = None"
proof (induction "length (entries name cs)" arbitrary: cs rule: less_induct)
  case less
  show ?case
  proof (cases "m < length (entries name cs)")
    case False
    then show ?thesis by (simp add: limitCacheSize_settled_within)
  next
    case True
    let ?cs' = "cache_delete name (fst (hd (entries name cs))) (caches_open name cs)"
    have "entries name cs \<noteq> []" using True by auto
    then have "fst (hd (entries name cs)) \<in> fst ` set (entries name (caches_open name cs))"
      by (simp add: entries_caches_open)
    from length_cache_delete [OF this]
    have "length (entries name ?cs') < length (entries name cs)"
      by (simp add: entries_caches_open)
    from less.hyps [OF this] show ?thesis
      using limitCacheSize_settled_over [OF True] by simp
  qed
qed

lemma land_finally_settled: "land_finally name (limitCacheSize name m (None, cs))
   = snd (limitCacheSize name m (None, cs))"
  using fst_limitCacheSize_settled [of name m cs]
  by (cases "limitCacheSize name m (None, cs)") simp

lemma entries_put_lands_open_if:
  "entries name (put_lands name k v (caches_open name cs))
   = (if put_refused v then entries name cs else partition_put k v (entries name cs))"
  by (simp add: entries_put_lands_open put_lands_refused entries_caches_open)



text \<open>
  With the cache below its bound the dropped write is carried out whenever it lands, and
  nothing is evicted.
\<close>

lemma write_lands_below_bound:
  assumes "length (entries name cs) < m"
  shows "land_finally name (limitCacheSize name m (Some (lands, k, v), caches_open name cs))
         = put_lands name k v (caches_open name cs)"
proof -
  let ?w = "put_lands name k v (caches_open name cs)"
  have le: "length (entries name ?w) \<le> m"
    using length_put_lands [of name k v "caches_open name cs"] assms
    by (simp add: entries_caches_open)
  have settled: "limitCacheSize name m (None, ?w) = (None, ?w)"
    using le by (simp add: limitCacheSize_settled_within caches_open_put_lands)
  consider "lands = 0" | "lands = Suc 0" | n where "lands = Suc (Suc n)"
    by (cases lands rule: nat.exhaust) (auto, metis nat.exhaust)
  then show ?thesis
  proof cases
    case 1
    then show ?thesis by (simp add: limitCacheSize_lands_before_open settled)
  next
    case 2
    then show ?thesis
      by (simp add: limitCacheSize_lands_before_keys caches_open_twice settled)
  next
    case 3
    have "length (entries name (caches_open name cs)) \<le> m"
      using assms by (simp add: entries_caches_open)
    then show ?thesis
      by (simp add: 3 limitCacheSize_lands_after caches_open_twice)
  qed
qed


text \<open>
  When the write lands between the read of the keys and the deletion, in a cache that is
  one entry over its bound and whose oldest key is the one being written, the deletion
  removes the fresh entry.
\<close>

lemma fresh_entry_lost:
  assumes "entries name cs = (k, old) # rest" and "k \<notin> fst ` set rest"
    and "length rest = m" and "\<not> put_refused v"
  shows "entries name (land_finally name (limitCacheSize name m (Some (Suc (Suc 0), k, v), cs)))
         = rest"
proof -
  have present: "name \<in> set (map fst cs)"
    using assms(1) by (cases "name \<in> set (map fst cs)") (auto simp: entries_absent)
  then have op: "caches_open name cs = cs" by (rule caches_open_present)
  have "\<forall>e \<in> set rest. fst e \<noteq> k" using assms(2) by (metis imageI)
  then have f: "filter (\<lambda>e. fst e \<noteq> k) rest = rest" by simp
  let ?landed = "put_lands name k v cs"
  let ?deleted = "cache_delete name k ?landed"
  have el: "entries name ?landed = rest @ [(k, v)]"
    using entries_put_lands_open [OF assms(4), of name k cs] assms(1) f
    by (simp add: op partition_put_def)
  have pl: "name \<in> set (map fst ?landed)" using present by (simp add: names_put_lands)
  have ed: "entries name ?deleted = rest"
    by (simp add: cache_delete_def entries_update_partition [OF pl] el partition_delete_def f)
  have step: "limitCacheSize name m (Some (Suc (Suc 0), k, v), cs)
      = limitCacheSize name m (None, ?deleted)"
    using assms(1,3)
    by (simp add: limitCacheSize.simps [of name m "(Some (Suc (Suc 0), k, v), cs)"] op
        cache_keys_def)
  have "limitCacheSize name m (None, ?deleted) = (None, caches_open name ?deleted)"
    using ed assms(3) by (simp add: limitCacheSize_settled_within)
  then show ?thesis by (simp add: step entries_caches_open ed)
qed

text \<open>
  What does hold: when every write lands before \<open>limitCacheSize\<close> starts, a cache that
  starts within its bound with one entry per identity stays within it, and it holds the
  last \<open>m\<close> entries of the history of writes, in insertion order.
\<close>

lemma fold_enforced_newest:
  assumes "distinct (map fst (entries name U))"
    and "entries name E = newest m (entries name U)"
  shows "entries name
           (fold (\<lambda>(k, v) c. land_finally name
                    (limitCacheSize name m (Some (0, k, v), caches_open name c))) ws E)
         = newest m (entries name
             (fold (\<lambda>(k, v) c. put_lands name k v (caches_open name c)) ws U))"
  using assms
proof (induction ws arbitrary: E U)
  case Nil
  then show ?case by simp
next
  case (Cons w ws)
  obtain k v where w: "w = (k, v)" by (cases w)
  let ?E1 = "put_lands name k v (caches_open name E)"
  let ?E' = "land_finally name (limitCacheSize name m (Some (0, k, v), caches_open name E))"
  let ?U' = "put_lands name k v (caches_open name U)"
  have E': "?E' = snd (limitCacheSize name m (None, ?E1))"
    by (simp add: limitCacheSize_lands_before_open land_finally_settled)
  have dU: "distinct (map fst (entries name ?U'))"
    using Cons.prems(1) by (simp add: entries_put_lands_open_if distinct_partition_put)
  have dE: "distinct (map fst (entries name ?E1))"
    using Cons.prems by (simp add: entries_put_lands_open_if distinct_partition_put distinct_newest)
  have "entries name ?E' = newest m (entries name ?E1)"
    using limitCacheSize_settled_newest [OF dE] by (simp add: E')
  also have "\<dots> = newest m (entries name ?U')"
    using newest_put [OF Cons.prems(1)] Cons.prems(2)
    by (simp add: entries_put_lands_open_if newest_idem)
  finally have "entries name ?E' = newest m (entries name ?U')" .
  from Cons.IH [OF dU this] show ?case by (simp add: w)
qed

lemma limitCacheSize_fifo_when_writes_land_first:
  assumes "distinct (map fst (entries name cs))" and "length (entries name cs) \<le> m"
  shows "(let enforced = fold (\<lambda>(k, v) c. land_finally name
                                  (limitCacheSize name m (Some (0, k, v), caches_open name c)))
                           ws cs;
              history = fold (\<lambda>(k, v) c. put_lands name k v (caches_open name c)) ws cs
          in length (entries name enforced) \<le> m
           \<and> entries name enforced
               = drop (length (entries name history) - m) (entries name history))"
proof -
  have "entries name cs = newest m (entries name cs)"
    using assms(2) by (simp add: newest_within)
  from fold_enforced_newest [OF assms(1) this, of ws]
  show ?thesis
    using length_newest [of m] by (simp add: Let_def newest_def)
qed

lemma sample_response_accepted: "\<not> put_refused (sample_response b)"
  by (simp add: put_refused_def vary_star_def sample_response_def)

lemma not_found_response_accepted: "\<not> put_refused not_found_response"
  by (simp add: put_refused_def vary_star_def not_found_response_def)


lemma entries_full_world: "entries DYNAMIC_CACHE (caches full_world) = fifty_pages"
  by (simp add: full_world_def empty_world_def entries_def)

lemma length_fifty_pages: "length fifty_pages = 50"
  by (simp add: fifty_pages_def)

lemma new_page_not_in_fifty_pages:
  "filter (\<lambda>e. fst e \<noteq> ''/new.html'') fifty_pages = fifty_pages"
  by (simp add: fifty_pages_def filter_id_conv)

section \<open>The bound of the dynamic cache\<close>

text \<open>
  Claim C1. The bounded caches are said to hold at most their maximum after every write
  and its run of \<open>limitCacheSize\<close>. The strategies drop the promise of \<open>cache.put\<close>:
  when the write lands after \<open>limitCacheSize\<close> has read the keys (after two or more of
  its awaited operations), a dynamic cache that holds 50 pages is not trimmed, and it
  holds 51 once the handler's write has landed.
\<close>

theorem dropped_put_exceeds_bound:
  "length (entries DYNAMIC_CACHE (caches full_world)) = MAX_DYNAMIC_ITEMS
   \<and> length (entries DYNAMIC_CACHE (caches (snd
        (handlePageRequest (\<lambda>name. True) serves_everything (Suc (Suc n))
           (sample_request ''/new.html'') full_world))))
     = Suc MAX_DYNAMIC_ITEMS"
proof -
  let ?cs = "caches full_world"
  let ?r = "sample_response ''asset''"
  have le: "length (entries DYNAMIC_CACHE (caches_open DYNAMIC_CACHE ?cs)) \<le> MAX_DYNAMIC_ITEMS"
    by (simp add: entries_caches_open entries_full_world length_fifty_pages MAX_DYNAMIC_ITEMS_def)
  have "caches (snd (handlePageRequest (\<lambda>name. True) serves_everything (Suc (Suc n))
           (sample_request ''/new.html'') full_world))
        = put_lands DYNAMIC_CACHE ''/new.html'' ?r (caches_open DYNAMIC_CACHE ?cs)"
    by (simp add: handlePageRequest_def serves_everything_def Let_def sample_request_def
        limitCacheSize_lands_after [OF le] caches_open_twice)
  then show ?thesis
    by (simp add: entries_put_lands_open sample_response_accepted entries_full_world
        partition_put_def new_page_not_in_fifty_pages length_fifty_pages MAX_DYNAMIC_ITEMS_def)
qed

section \<open>The page strategy\<close>





text \<open>
  Claim C2. The page and the image strategy are said never to store a response whose
  status is not 200. Both store every fulfilled response that \<open>cache.put\<close> accepts: at
  a 404 answer the entry is in the dynamic cache, respectively the image cache,
  afterwards, whenever the dropped write lands. Only \<open>handleCDNRequest\<close> tests
  \<open>status === 200\<close> before it stores.
\<close>

theorem non_200_response_is_cached:
  "caches (snd (handlePageRequest (\<lambda>name. True) (\<lambda>u. Fulfilled 80 not_found_response) lands
       (sample_request ''/missing.html'') empty_world))
     = [(DYNAMIC_CACHE, [(''/missing.html'', not_found_response)])]
   \<and> caches (snd (handleImageRequest (\<lambda>name. True) (\<lambda>u. Fulfilled 80 not_found_response) lands
       ((sample_request ''/img/missing.png'')\<lparr>destination := ''image''\<rparr>) empty_world))
     = [(IMAGE_CACHE, [(''/img/missing.png'', not_found_response)])]"
proof -
  have 1: "land_finally DYNAMIC_CACHE (limitCacheSize DYNAMIC_CACHE MAX_DYNAMIC_ITEMS
        (Some (lands, ''/missing.html'', not_found_response), caches_open DYNAMIC_CACHE []))
      = put_lands DYNAMIC_CACHE ''/missing.html'' not_found_response (caches_open DYNAMIC_CACHE [])"
    by (rule write_lands_below_bound) (simp add: entries_def MAX_DYNAMIC_ITEMS_def)
  have 2: "land_finally IMAGE_CACHE (limitCacheSize IMAGE_CACHE MAX_IMAGE_ITEMS
        (Some (lands, ''/img/missing.png'', not_found_response), caches_open IMAGE_CACHE []))
      = put_lands IMAGE_CACHE ''/img/missing.png'' not_found_response (caches_open IMAGE_CACHE [])"
    by (rule write_lands_below_bound) (simp add: entries_def MAX_IMAGE_ITEMS_def)
  have page: "caches (snd (handlePageRequest (\<lambda>name. True)
        (\<lambda>u. Fulfilled 80 not_found_response) lands (sample_request ''/missing.html'')
        empty_world))
      = put_lands DYNAMIC_CACHE ''/missing.html'' not_found_response (caches_open DYNAMIC_CACHE [])"
    by (simp add: handlePageRequest_def Let_def empty_world_def sample_request_def 1)
  have image: "caches (snd (handleImageRequest (\<lambda>name. True)
        (\<lambda>u. Fulfilled 80 not_found_response) lands
        ((sample_request ''/img/missing.png'')\<lparr>destination := ''image''\<rparr>) empty_world))
      = put_lands IMAGE_CACHE ''/img/missing.png'' not_found_response (caches_open IMAGE_CACHE [])"
    by (simp add: handleImageRequest_def Let_def empty_world_def sample_request_def 2)
  show ?thesis
    unfolding page image using not_found_response_accepted
    by (simp add: put_lands_def cache_put_def store_entry_def caches_open_def
        update_partition_def partition_put_def)
qed

section \<open>The image strategy\<close>

text \<open>
  Claim C8. When \<open>caches.match\<close> finds an entry for the request, the image strategy
  returns that entry and leaves the whole state as it was: no \<open>fetch\<close> is logged and
  no cache is written.
\<close>

theorem handleImageRequest_cache_hit:
  assumes "caches_match (caches w) (url request) = Some cachedResponse"
  shows "handleImageRequest openable net lands request w = (Returns (Some cachedResponse), w)
       \<and> fetch_log (snd (handleImageRequest openable net lands request w)) = fetch_log w"
  using assms by (simp add: handleImageRequest_def)

theorem handleImageRequest_cache_hit_witness:
  "caches_match
     (caches (empty_world\<lparr>caches := [(IMAGE_CACHE, [(''/icons/favicon.png'', sample_response ''png'')])]\<rparr>))
     (url (sample_request ''/icons/favicon.png'')) = Some (sample_response ''png'')
   \<and> handleImageRequest (\<lambda>name. True) (\<lambda>u. Rejected 10 (TypeError ''Failed to fetch'')) 0
        (sample_request ''/icons/favicon.png'')
        (empty_world\<lparr>caches := [(IMAGE_CACHE, [(''/icons/favicon.png'', sample_response ''png'')])]\<rparr>)
      = (Returns (Some (sample_response ''png'')),
         empty_world\<lparr>caches := [(IMAGE_CACHE, [(''/icons/favicon.png'', sample_response ''png'')])]\<rparr>)
   \<and> fetch_log (snd (handleImageRequest (\<lambda>name. True)
        (\<lambda>u. Rejected 10 (TypeError ''Failed to fetch'')) 0
        (sample_request ''/icons/favicon.png'')
        (empty_world\<lparr>caches := [(IMAGE_CACHE, [(''/icons/favicon.png'', sample_response ''png'')])]\<rparr>)))
      = []"
  using handleImageRequest_cache_hit [of
      "empty_world\<lparr>caches := [(IMAGE_CACHE, [(''/icons/favicon.png'', sample_response ''png'')])]\<rparr>"
      "sample_request ''/icons/favicon.png''" "sample_response ''png''"
      "\<lambda>name. True" "\<lambda>u. Rejected 10 (TypeError ''Failed to fetch'')" 0]
  by (simp add: empty_world_def sample_request_def)

section \<open>The API strategy\<close>

lemma json_error_body:
  "JSON_stringify [(''error'', JsonString ''Network error''), (''offline'', JsonBool True)]
   = network_error_body"
  by (simp add: JSON_stringify_def network_error_body_def)

text \<open>
  Claim C4. For an API request: when the fetch never settles, is fulfilled later than
  the 5000 ms timer, or is rejected, the strategy returns the synthetic response with
  status 503, content type \<open>application/json\<close> and the network-error body; when the
  fetch is fulfilled within 5000 ms its response is returned unchanged. The strategy
  never throws and never hangs, and it writes no cache.
\<close>

theorem handleApiRequest_timeout_or_failure:
  "(net (url request) = Pending \<or> (net (url request) = Fulfilled t r \<and> 5000 < t)
      \<or> net (url request) = Rejected t err \<longrightarrow>
      fst (handleApiRequest net request w)
        = Returns (Some \<lparr>status = 503, headers = [(''Content-Type'', ''application/json'')],
                          body = network_error_body\<rparr>))
   \<and> (net (url request) = Fulfilled t r \<and> t \<le> 5000 \<longrightarrow>
        fst (handleApiRequest net request w) = Returns (Some r))
   \<and> fst (handleApiRequest net request w) \<noteq> Throws e
   \<and> fst (handleApiRequest net request w) \<noteq> Hangs
   \<and> caches (snd (handleApiRequest net request w)) = caches w"
  by (cases "net (url request)") (auto simp: handleApiRequest_def Let_def json_error_body)

theorem handleApiRequest_timeout_or_failure_witness:
  "fst (handleApiRequest (\<lambda>u. Pending) (sample_request ''/api/colleges'') offline_world)
     = Returns (Some \<lparr>status = 503, headers = [(''Content-Type'', ''application/json'')],
                       body = network_error_body\<rparr>)
   \<and> (5000::nat) < 7000
   \<and> fst (handleApiRequest (\<lambda>u. Fulfilled 7000 (sample_response ''late''))
         (sample_request ''/api/colleges'') offline_world)
     = Returns (Some \<lparr>status = 503, headers = [(''Content-Type'', ''application/json'')],
                       body = network_error_body\<rparr>)
   \<and> fst (handleApiRequest (\<lambda>u. Rejected 30 (TypeError ''Failed to fetch''))
         (sample_request ''/api/colleges'') offline_world)
     = Returns (Some \<lparr>status = 503, headers = [(''Content-Type'', ''application/json'')],
                       body = network_error_body\<rparr>)
   \<and> (120::nat) \<le> 5000
   \<and> fst (handleApiRequest (\<lambda>u. Fulfilled 120 (sample_response ''data''))
         (sample_request ''/api/colleges'') offline_world)
     = Returns (Some (sample_response ''data''))
   \<and> caches (snd (handleApiRequest (\<lambda>u. Fulfilled 120 (sample_response ''data''))
         (sample_request ''/api/colleges'') offline_world)) = caches offline_world"
  using handleApiRequest_timeout_or_failure [of "\<lambda>u. Pending" "sample_request ''/api/colleges''"
      _ _ _ offline_world]
    handleApiRequest_timeout_or_failure [of "\<lambda>u. Fulfilled 7000 (sample_response ''late'')"
      "sample_request ''/api/colleges''" 7000 "sample_response ''late''" _ offline_world]
    handleApiRequest_timeout_or_failure [of "\<lambda>u. Rejected 30 (TypeError ''Failed to fetch'')"
      "sample_request ''/api/colleges''" 30 _ "TypeError ''Failed to fetch''" offline_world]
    handleApiRequest_timeout_or_failure [of "\<lambda>u. Fulfilled 120 (sample_response ''data'')"
      "sample_request ''/api/colleges''" 120 "sample_response ''data''" _ offline_world]
  by simp

section \<open>Activation prunes by the whitelist\<close>

lemma fold_activate_key:
  "fold activate_key ks cs
   = filter (\<lambda>e. fst e \<in> set cacheWhitelist \<or> fst e \<notin> set ks) cs"
proof (induction ks arbitrary: cs)
  case Nil
  then show ?case by simp
next
  case (Cons k ks)
  show ?case
  proof (cases "k \<in> set cacheWhitelist")
    case True
    have "activate_key k cs = cs" using True by (simp add: activate_key_def)
    then show ?thesis using True by (auto simp: Cons.IH intro: filter_cong)
  next
    case False
    have "activate_key k cs = filter (\<lambda>e. fst e \<noteq> k) cs"
      using False by (simp add: activate_key_def caches_delete_def)
    moreover have "filter (\<lambda>e. fst e \<noteq> k \<and> (fst e \<in> set cacheWhitelist \<or> fst e \<notin> set ks)) cs
        = filter (\<lambda>e. fst e \<in> set cacheWhitelist \<or> fst e \<noteq> k \<and> fst e \<notin> set ks) cs"
      by (rule filter_cong) (use False in auto)
    ultimately show ?thesis by (simp add: Cons.IH)
  qed
qed

lemma fold_activate_key_all:
  assumes "set (caches_keys cs) \<subseteq> set ks"
  shows "fold activate_key ks cs = filter (\<lambda>e. fst e \<in> set cacheWhitelist) cs"
proof -
  have "\<forall>e \<in> set cs. fst e \<in> set ks" using assms by (auto simp: caches_keys_def)
  then show ?thesis unfolding fold_activate_key by (auto intro: filter_cong)
qed

lemma map_of_filter_names:
  "map_of (filter (\<lambda>e. P (fst e)) cs) n = (if P n then map_of cs n else None)"
  by (induction cs) auto

lemma map_of_whitelisted:
  "map_of (filter (\<lambda>e. fst e \<in> set cacheWhitelist) cs) n
   = (if n \<in> set cacheWhitelist then map_of cs n else None)"
  by (rule map_of_filter_names [where P = "\<lambda>n. n \<in> set cacheWhitelist"])

lemma caches_activate:
  "caches (snd (activate w)) = filter (\<lambda>e. fst e \<in> set cacheWhitelist) (caches w)"
  by (simp add: activate_def fold_activate_key_all)

text \<open>
  Claim C5. Activation returns normally; afterwards no cache exists under a name outside
  the whitelist (static shell, dynamic pages, images, third-party resources), every cache
  under a whitelisted name holds exactly what it held before, and running the callback
  over the cache names in any other order (any list with the same names) ends in the
  same storage.
\<close>

theorem activate_prunes_by_whitelist:
  "fst (activate w) = Returns ()
   \<and> (n \<notin> set cacheWhitelist \<longrightarrow> map_of (caches (snd (activate w))) n = None)
   \<and> (n' \<in> set cacheWhitelist \<longrightarrow>
        map_of (caches (snd (activate w))) n' = map_of (caches w) n')
   \<and> (set ks = set (caches_keys (caches w)) \<longrightarrow>
        fold activate_key ks (caches w) = caches (snd (activate w)))"
proof -
  have "fst (activate w) = Returns ()" by (simp add: activate_def)
  moreover have "n \<notin> set cacheWhitelist \<longrightarrow> map_of (caches (snd (activate w))) n = None"
    by (simp add: caches_activate map_of_whitelisted)
  moreover have "n' \<in> set cacheWhitelist \<longrightarrow>
      map_of (caches (snd (activate w))) n' = map_of (caches w) n'"
    by (simp add: caches_activate map_of_whitelisted)
  moreover have "set ks = set (caches_keys (caches w)) \<longrightarrow>
      fold activate_key ks (caches w) = caches (snd (activate w))"
    by (simp add: caches_activate fold_activate_key_all)
  ultimately show ?thesis by blast
qed

theorem activate_prunes_by_whitelist_witness:
  "''EduPath-pwa-v0'' \<notin> set cacheWhitelist
   \<and> map_of (caches (snd (activate old_world))) ''EduPath-pwa-v0'' = None
   \<and> CACHE_NAME \<in> set cacheWhitelist
   \<and> map_of (caches (snd (activate old_world))) CACHE_NAME
       = Some [(''/offline.html'', sample_response ''offline'')]
   \<and> set [CDN_CACHE, ''EduPath-dynamic-v0'', CACHE_NAME, ''EduPath-pwa-v0'']
       = set (caches_keys (caches old_world))
   \<and> fold activate_key [CDN_CACHE, ''EduPath-dynamic-v0'', CACHE_NAME, ''EduPath-pwa-v0'']
        (caches old_world)
       = [(CACHE_NAME, [(''/offline.html'', sample_response ''offline'')]), (CDN_CACHE, [])]"
  using activate_prunes_by_whitelist [of old_world "''EduPath-pwa-v0''" CACHE_NAME
      "[CDN_CACHE, ''EduPath-dynamic-v0'', CACHE_NAME, ''EduPath-pwa-v0'']"]
  by (simp add: old_world_def cacheWhitelist_def CACHE_NAME_def DYNAMIC_CACHE_def IMAGE_CACHE_def
      CDN_CACHE_def caches_keys_def activate_def activate_key_def caches_delete_def insert_commute)

text \<open>
  Claim C9. Activation is idempotent: activating the state that an activation has left
  gives the same result and the same state (cache names and contents) again.
\<close>

theorem activate_idempotent:
  "activate (snd (activate w)) = activate w"
  by (simp add: activate_def fold_activate_key_all caches_keys_def)

section \<open>Installation\<close>

lemma fst_cache_addAll:
  "fst (cache_addAll net name urls w)
   = (if list_ex addAll_refused (map net urls) then Throws (TypeError ''Request failed'')
      else if list_ex (\<lambda>p. p = Pending) (map net urls) then Hangs
      else Returns ())"
  by (simp add: cache_addAll_def Let_def)

lemma fst_open_then_addAll:
  "fst (open_then_addAll openable net name urls w)
   = (if \<not> openable name then Throws (DOMException ''caches.open'')
      else if list_ex addAll_refused (map net urls) then Throws (TypeError ''Request failed'')
      else if list_ex (\<lambda>p. p = Pending) (map net urls) then Hangs
      else Returns ())"
  by (simp add: open_then_addAll_def fst_cache_addAll)

lemma install_outcome:
  "fst (install openable net urls w)
     = (case Promise_all
          [fst (open_then_addAll openable net CACHE_NAME urls w),
           if openable CDN_CACHE
           then catch_all (if list_ex addAll_refused (map net cdnUrlsToCache)
                           then Throws (TypeError ''Request failed'')
                           else if list_ex (\<lambda>p. p = Pending) (map net cdnUrlsToCache) then Hangs
                           else Returns ())
           else Throws (DOMException ''caches.open'')] of
          Returns vs \<Rightarrow> Returns () | Throws e \<Rightarrow> Throws e | Hangs \<Rightarrow> Hangs)
   \<and> (fst (install openable net urls w) = Returns () \<longrightarrow>
        skipped_waiting (snd (install openable net urls w)))"
proof -
  obtain s w2 where s: "open_then_addAll openable net CACHE_NAME urls w = (s, w2)" by force
  obtain c w3 where c: "cache_addAll net CDN_CACHE cdnUrlsToCache
      (w2\<lparr>caches := caches_open CDN_CACHE (caches w2)\<rparr>) = (c, w3)" by force
  have fc: "c = fst (cache_addAll net CDN_CACHE cdnUrlsToCache
      (w2\<lparr>caches := caches_open CDN_CACHE (caches w2)\<rparr>))" using c by simp
  show ?thesis
    unfolding install_def s
    by (cases "openable CDN_CACHE")
       (auto simp: Let_def c fc [unfolded fst_cache_addAll] fst_cache_addAll
         split: outcome.splits)
qed

text \<open>
  Claim C6, as stated, fails where \<open>caches.open(CDN_CACHE)\<close> rejects: the static-shell
  cache is opened and filled, and installation fails all the same.
\<close>

theorem install_fails_though_static_succeeds:
  "fst (open_then_addAll (\<lambda>name. name \<noteq> CDN_CACHE) serves_everything CACHE_NAME local_manifest
          empty_world) = Returns ()
   \<and> fst (install (\<lambda>name. name \<noteq> CDN_CACHE) serves_everything local_manifest empty_world)
       = Throws (DOMException ''caches.open'')"
  using install_outcome [of "\<lambda>name. name \<noteq> CDN_CACHE" serves_everything local_manifest empty_world]
  by (simp add: fst_open_then_addAll serves_everything_def local_manifest_def
      sample_response_def response_ok_def put_refused_def vary_star_def CACHE_NAME_def
      CDN_CACHE_def)

text \<open>
  Claim C6, amended. Installation fails exactly when pre-population of the static-shell
  cache fails or the third-party cache cannot be opened; pre-population of the
  static-shell cache fails exactly when that cache cannot be opened or an entry of the
  manifest is refused (its fetch is rejected, answers outside 200..299, or answers with
  a response that cannot be stored). When both caches can be opened and every manifest
  entry is stored, a refused third-party URL does not fail installation: it returns and
  \<open>skipWaiting\<close> is called.
\<close>

theorem install_fails_iff_static_fails:
  "((\<exists>e. fst (install openable net urls w) = Throws e)
      = ((\<exists>e. fst (open_then_addAll openable net CACHE_NAME urls w) = Throws e)
         \<or> \<not> openable CDN_CACHE))
   \<and> ((\<exists>e. fst (open_then_addAll openable net CACHE_NAME urls w) = Throws e)
      = (\<not> openable CACHE_NAME \<or> (\<exists>u \<in> set urls. addAll_refused (net u))))
   \<and> (openable CACHE_NAME \<and> openable CDN_CACHE
        \<and> (\<forall>u \<in> set urls. \<exists>t r. net u = Fulfilled t r \<and> \<not> addAll_refused (net u))
        \<and> (\<exists>u \<in> set cdnUrlsToCache. addAll_refused (net u)) \<longrightarrow>
        fst (install openable net urls w) = Returns ()
        \<and> skipped_waiting (snd (install openable net urls w)))"
proof -
  have b: "(\<exists>e. fst (open_then_addAll openable net CACHE_NAME urls w) = Throws e)
           = (\<not> openable CACHE_NAME \<or> (\<exists>u \<in> set urls. addAll_refused (net u)))"
    by (simp add: fst_open_then_addAll list_ex_iff)
  have a: "(\<exists>e. fst (install openable net urls w) = Throws e)
      = ((\<exists>e. fst (open_then_addAll openable net CACHE_NAME urls w) = Throws e)
         \<or> \<not> openable CDN_CACHE)"
    unfolding install_outcome [THEN conjunct1] fst_open_then_addAll by simp
  have d: "fst (install openable net urls w) = Returns ()
      \<and> skipped_waiting (snd (install openable net urls w))"
    if o1: "openable CACHE_NAME" and o2: "openable CDN_CACHE"
      and ok: "\<forall>u \<in> set urls. \<exists>t r. net u = Fulfilled t r \<and> \<not> addAll_refused (net u)"
      and bad: "\<exists>u \<in> set cdnUrlsToCache. addAll_refused (net u)"
  proof -
    have n1: "\<not> list_ex addAll_refused (map net urls)"
      using ok by (auto simp: list_ex_iff)
    have n2: "\<not> list_ex (\<lambda>p. p = Pending) (map net urls)"
      using ok by (auto simp: list_ex_iff)
    have n3: "list_ex addAll_refused (map net cdnUrlsToCache)"
      using bad by (auto simp: list_ex_iff)
    have "fst (install openable net urls w) = Returns ()"
      unfolding install_outcome [THEN conjunct1] fst_open_then_addAll
      using o1 o2 n1 n2 n3 by simp
    then show ?thesis using install_outcome [THEN conjunct2, of openable net urls w] by simp
  qed
  show ?thesis using a b d by blast
qed

theorem install_fails_iff_static_fails_witness:
  "addAll_refused (offline_page_missing ''/offline.html'')
   \<and> (\<exists>e. fst (open_then_addAll (\<lambda>name. True) offline_page_missing CACHE_NAME local_manifest
                 empty_world) = Throws e)
   \<and> (\<exists>e. fst (install (\<lambda>name. True) offline_page_missing local_manifest empty_world) = Throws e)
   \<and> (\<exists>e. fst (install (\<lambda>name. name = CACHE_NAME) serves_everything local_manifest empty_world)
            = Throws e)
   \<and> addAll_refused (serves_only_local ''https://cdn.jsdelivr.net/npm/@tailwindcss/browser@4'')
   \<and> fst (install (\<lambda>name. True) serves_only_local local_manifest empty_world) = Returns ()
   \<and> skipped_waiting (snd (install (\<lambda>name. True) serves_only_local local_manifest empty_world))"
proof -
  have 1: "\<exists>u \<in> set local_manifest. addAll_refused (offline_page_missing u)"
    by (simp add: local_manifest_def offline_page_missing_def not_found_response_def
        response_ok_def)
  have 2: "\<forall>u \<in> set local_manifest.
      \<exists>t r. serves_only_local u = Fulfilled t r \<and> \<not> addAll_refused (serves_only_local u)"
    by (simp add: serves_only_local_def sample_response_def response_ok_def put_refused_def
        vary_star_def)
  have 3: "\<exists>u \<in> set cdnUrlsToCache. addAll_refused (serves_only_local u)"
    by (simp add: serves_only_local_def local_manifest_def cdnUrlsToCache_def)
  have 4: "addAll_refused (offline_page_missing ''/offline.html'')"
    by (simp add: offline_page_missing_def not_found_response_def response_ok_def)
  have 5: "addAll_refused
      (serves_only_local ''https://cdn.jsdelivr.net/npm/@tailwindcss/browser@4'')"
    by (simp add: serves_only_local_def local_manifest_def)
  have 6: "(\<exists>e. fst (open_then_addAll (\<lambda>name. True) offline_page_missing CACHE_NAME
        local_manifest empty_world) = Throws e)
      \<and> (\<exists>e. fst (install (\<lambda>name. True) offline_page_missing local_manifest empty_world)
            = Throws e)"
    using install_fails_iff_static_fails [of "\<lambda>name. True" offline_page_missing local_manifest
        empty_world] 1 by blast
  have 7: "fst (install (\<lambda>name. True) serves_only_local local_manifest empty_world) = Returns ()
      \<and> skipped_waiting (snd (install (\<lambda>name. True) serves_only_local local_manifest empty_world))"
    using install_fails_iff_static_fails [of "\<lambda>name. True" serves_only_local local_manifest
        empty_world] 2 3 by blast
  have "\<not> (\<lambda>name. name = CACHE_NAME) CDN_CACHE" by (simp add: CACHE_NAME_def CDN_CACHE_def)
  then have 8: "\<exists>e. fst (install (\<lambda>name. name = CACHE_NAME) serves_everything local_manifest
      empty_world) = Throws e"
    using install_fails_iff_static_fails [of "\<lambda>name. name = CACHE_NAME" serves_everything
        local_manifest empty_world] by blast
  show ?thesis using 4 5 6 7 8 by blast
qed

section \<open>Control messages\<close>

text \<open>
  Claim C7. A message whose action is missing or unknown is said to be ignored without an
  error. The listener reads \<open>event.data.action\<close> before anything else: a posted
  \<open>null\<close> or \<open>undefined\<close> has no action field, and the read throws a \<open>TypeError\<close>
  (the state stays as it was).
\<close>

theorem message_listener_throws_on_null:
  "message_listener openable net JNull w
     = (Throws (TypeError ''Cannot read properties of null''), w)
   \<and> message_listener openable net JUndefined w
       = (Throws (TypeError ''Cannot read properties of undefined''), w)"
  by (simp add: message_listener_def)

text \<open>
  Every other message without a recognised action is ignored: the listener returns and
  the state is unchanged.
\<close>

lemma message_listener_ignores_unknown:
  assumes "get_action data = Inr action"
    and "action \<noteq> JString ''skipWaiting''" "action \<noteq> JString ''clearCache''"
    and "action \<noteq> JString ''cacheCDN''"
  shows "message_listener openable net data w = (Returns (), w)"
  using assms by (simp add: message_listener_def)

section \<open>Classification of third-party requests\<close>

text \<open>
  Claim C10. A GET request whose hostname contains one of the six configured CDN domains
  anywhere as a substring is a CDN resource for the listener and is answered by
  \<open>handleCDNRequest\<close>, whatever its origin: the test comes before the cross-origin
  pass-through.
\<close>

theorem fetch_listener_cdn_substring:
  assumes "request_method request = ''GET''"
    and "domain \<in> set cdnDomains"
    and "hostname request = pre @ domain @ post"
  shows "isCDNResource (hostname request)
       \<and> fetch_listener location_origin openable net lands request w
           = respondWith (handleCDNRequest openable net request w)"
proof -
  have "sublist domain (hostname request)"
    using assms(3) by (auto simp: sublist_def)
  then have "isCDNResource (hostname request)"
    using assms(2) by (auto simp: isCDNResource_def list_ex_iff str_includes_def)
  then show ?thesis using assms(1) by (simp add: fetch_listener_def)
qed

theorem fetch_listener_cdn_substring_witness:
  "request_method cdn_lookalike_request = ''GET''
   \<and> ''cdn.jsdelivr.net'' \<in> set cdnDomains
   \<and> hostname cdn_lookalike_request = [] @ ''cdn.jsdelivr.net'' @ ''.example.com''
   \<and> origin cdn_lookalike_request \<noteq> ''https://edupath.example''
   \<and> isCDNResource (hostname cdn_lookalike_request)
   \<and> fetch_listener ''https://edupath.example'' (\<lambda>name. True) serves_only_local 0
        cdn_lookalike_request empty_world
       = respondWith (handleCDNRequest (\<lambda>name. True) serves_only_local cdn_lookalike_request
           empty_world)"
  using fetch_listener_cdn_substring [of cdn_lookalike_request "''cdn.jsdelivr.net''" "[]"
      "''.example.com''" "''https://edupath.example''" "\<lambda>name. True" serves_only_local 0
      empty_world]
  by (simp add: cdn_lookalike_request_def cdnDomains_def)

end
